theory Spec2Isabelle
  imports Complex_Main "HOL-Library.Product_Lexorder"
begin

section \<open>Data model\<close>

text \<open>
  The colour table \<^verbatim>\<open>COLORS\<close> of \<^verbatim>\<open>generate_tct_gif.py\<close> is a dictionary from names to
  hex strings. The classifier only ever stores the entries looked up under the five keys
  below, so a colour class is the key it was looked up with: \<^verbatim>\<open>'text'\<close> (plain),
  \<^verbatim>\<open>'text_dim'\<close> (punctuation), \<^verbatim>\<open>'json_key'\<close>, \<^verbatim>\<open>'json_value'\<close>, \<^verbatim>\<open>'json_bracket'\<close>.
\<close>

datatype color = Text | Text_dim | Json_key | Json_value | Json_bracket

text \<open>A segment is the pair \<^verbatim>\<open>(text, current_color)\<close> appended by \<^verbatim>\<open>flush_segment\<close>.\<close>

type_synonym segment = "string \<times> color"

datatype py_error = ZeroDivisionError | DecodeFailure

section \<open>The classifier: first phase of \<^verbatim>\<open>draw_json_colored\<close>\<close>

text \<open>
  \<^verbatim>\<open>str.find\<close> for a one-character needle: the index of the first occurrence, or \<open>-1\<close>.
\<close>

fun str_find :: "char \<Rightarrow> string \<Rightarrow> int" where
  "str_find c [] = - 1"
| "str_find c (x # xs) =
     (if x = c then 0 else (let r = str_find c xs in if r = - 1 then - 1 else r + 1))"

text \<open>The local variables of the scan (lines 212--217), threaded through the loop.\<close>

record cstate =
  segments :: "segment list"
  in_string :: bool
  in_key :: bool
  escape_next :: bool
  current_text :: string
  current_color :: color

definition init_cstate :: cstate where
  "init_cstate = \<lparr>segments = [], in_string = False, in_key = False, escape_next = False,
     current_text = [], current_color = Text\<rparr>"

text \<open>\<^verbatim>\<open>flush_segment\<close> (lines 219--224): a non-empty accumulator becomes a segment.\<close>

definition flush_segment :: "cstate \<Rightarrow> cstate" where
  "flush_segment st =
     (if current_text st \<noteq> []
      then st\<lparr>segments := segments st @ [(current_text st, current_color st)],
              current_text := []\<rparr>
      else st)"

definition append_char :: "char \<Rightarrow> cstate \<Rightarrow> cstate" where
  "append_char c st = st\<lparr>current_text := current_text st @ [c]\<rparr>"

text \<open>
  The key test of lines 241--244 on \<^verbatim>\<open>rest = json_str[i+1:]\<close>.
\<close>

definition key_test :: "string \<Rightarrow> bool" where
  "key_test rest =
     (let colon_pos = str_find (CHR 0x3A) rest;
          quote_pos = str_find (CHR 0x22) rest
      in colon_pos \<noteq> - 1 \<and> (quote_pos = - 1 \<or> colon_pos < quote_pos + 1))"

text \<open>
  One iteration of the loop of lines 226--266 on character \<open>c\<close>, where \<open>rest\<close> is the
  input after \<open>c\<close>. The branches are in the order of the source's \<^verbatim>\<open>if\<close>/\<^verbatim>\<open>elif\<close> chain.
\<close>

definition classify_step :: "char \<Rightarrow> string \<Rightarrow> cstate \<Rightarrow> cstate" where
  "classify_step c rest st =
     (if escape_next st then (append_char c st)\<lparr>escape_next := False\<rparr>
      else if c = CHR 0x5C then append_char c (st\<lparr>escape_next := True\<rparr>)
      else if c = CHR 0x22 then
        (if \<not> in_string st then
           (let st1 = flush_segment st;
                k = key_test rest
            in append_char c
                 (st1\<lparr>in_string := True, in_key := k,
                       current_color := (if k then Json_key else Json_value)\<rparr>))
         else
           (flush_segment (append_char c st))
              \<lparr>in_string := False, in_key := False, current_color := Text\<rparr>)
      else if c \<in> set ''{}[]'' then
        (flush_segment (append_char c ((flush_segment st)\<lparr>current_color := Json_bracket\<rparr>)))
           \<lparr>current_color := Text\<rparr>
      else if \<not> in_string st \<and> c \<in> set '':,'' then
        (flush_segment (append_char c ((flush_segment st)\<lparr>current_color := Text_dim\<rparr>)))
           \<lparr>current_color := Text\<rparr>
      else append_char c st)"

fun classify_loop :: "string \<Rightarrow> cstate \<Rightarrow> cstate" where
  "classify_loop [] st = st"
| "classify_loop (c # cs) st = classify_loop cs (classify_step c cs st)"

text \<open>The segment list after the final \<^verbatim>\<open>flush_segment()\<close> of line 268.\<close>

definition classify :: "string \<Rightarrow> segment list" where
  "classify json_str = segments (flush_segment (classify_loop json_str init_cstate))"

section \<open>The layout engine: second phase of \<^verbatim>\<open>draw_json_colored\<close>\<close>

text \<open>
  Each \<^verbatim>\<open>draw.text((cursor_x, cursor_y), text, font=font, fill=hex_to_rgb(color))\<close> call of
  line 284 is recorded as a placement; the list of placements is the trace of draw calls
  in the order they are issued.
\<close>

record placement =
  ptext :: string
  pcolor :: color
  px :: int
  py :: int

definition line_height :: int where
  "line_height = 18"

text \<open>The wrap test of line 280.\<close>

definition wrap_needed :: "int \<Rightarrow> int \<Rightarrow> int \<Rightarrow> int \<Rightarrow> bool" where
  "wrap_needed x max_width cursor_x text_width =
     (cursor_x + text_width > x + max_width \<and> cursor_x > x)"

text \<open>
  The loop of lines 275--285. The font metrics (\<^verbatim>\<open>draw.textbbox\<close>, then
  \<^verbatim>\<open>bbox[2] - bbox[0]\<close>) are the parameter \<open>font_width\<close>. The result is the trace of
  draw calls and the final \<^verbatim>\<open>cursor_y\<close>.
\<close>

fun layout_loop ::
  "(string \<Rightarrow> int) \<Rightarrow> int \<Rightarrow> int \<Rightarrow> segment list \<Rightarrow> int \<Rightarrow> int \<Rightarrow> placement list \<times> int"
where
  "layout_loop font_width x max_width [] cursor_x cursor_y = ([], cursor_y)"
| "layout_loop font_width x max_width ((text, color) # segs) cursor_x cursor_y =
     (let text_width = font_width text;
          wrap = wrap_needed x max_width cursor_x text_width;
          cx = (if wrap then x + 20 else cursor_x);
          cy = (if wrap then cursor_y + line_height else cursor_y);
          (ps, final_y) = layout_loop font_width x max_width segs (cx + text_width) cy
      in (\<lparr>ptext = text, pcolor = color, px = cx, py = cy\<rparr> # ps, final_y))"

text \<open>Lines 270--287 on a segment list: the cursor starts at \<open>(x, y)\<close>.\<close>

definition layout_segments ::
  "(string \<Rightarrow> int) \<Rightarrow> int \<Rightarrow> int \<Rightarrow> int \<Rightarrow> segment list \<Rightarrow> placement list \<times> int"
where
  "layout_segments font_width x y max_width segs =
     (let (ps, final_y) = layout_loop font_width x max_width segs x y
      in (ps, final_y - y + line_height))"

text \<open>\<^verbatim>\<open>draw_json_colored\<close>: the draw calls issued and the height returned.\<close>

definition draw_json_colored ::
  "(string \<Rightarrow> int) \<Rightarrow> int \<Rightarrow> int \<Rightarrow> string \<Rightarrow> int \<Rightarrow> placement list \<times> int"
where
  "draw_json_colored font_width x y json_str max_width =
     layout_segments font_width x y max_width (classify json_str)"

section \<open>\<^verbatim>\<open>create_frame\<close>: token grid and statistics line\<close>

definition padding :: int where
  "padding = 25"

definition token_box_height :: int where
  "token_box_height = 28"

definition token_spacing :: int where
  "token_spacing = 56"

text \<open>Line 108. Python's \<^verbatim>\<open>//\<close> on integers is floor division, as \<open>div\<close> on \<open>int\<close>.\<close>

definition tokens_per_row :: "int \<Rightarrow> int" where
  "tokens_per_row width = (width - 2 * padding) div token_spacing"

text \<open>Python's \<^verbatim>\<open>//\<close> and \<^verbatim>\<open>%\<close> raise on a zero divisor.\<close>

definition py_floordiv :: "int \<Rightarrow> int \<Rightarrow> py_error + int" where
  "py_floordiv a b = (if b = 0 then Inl ZeroDivisionError else Inr (a div b))"

definition py_mod :: "int \<Rightarrow> int \<Rightarrow> py_error + int" where
  "py_mod a b = (if b = 0 then Inl ZeroDivisionError else Inr (a mod b))"

text \<open>
  One box of the token grid, as drawn by one iteration of the loop of lines 110--151:
  its grid cell, its pixel position, whether it is drawn filled (\<^verbatim>\<open>i < visible_tokens\<close>)
  and whether it gets the highlight (\<^verbatim>\<open>i == visible_tokens - 1\<close>, tested inside the
  filled branch).
\<close>

record cell =
  cell_token :: int
  cell_row :: int
  cell_col :: int
  cell_x :: int
  cell_y :: int
  cell_filled :: bool
  cell_newest :: bool

fun token_cells :: "int \<Rightarrow> int \<Rightarrow> int \<Rightarrow> nat \<Rightarrow> int list \<Rightarrow> py_error + cell list" where
  "token_cells tpr y visible_tokens i [] = Inr []"
| "token_cells tpr y visible_tokens i (token # rest) =
     (case py_floordiv (int i) tpr of
        Inl e \<Rightarrow> Inl e
      | Inr row \<Rightarrow>
         (case py_mod (int i) tpr of
            Inl e \<Rightarrow> Inl e
          | Inr col \<Rightarrow>
             (case token_cells tpr y visible_tokens (Suc i) rest of
                Inl e \<Rightarrow> Inl e
              | Inr cs \<Rightarrow>
                 Inr (\<lparr>cell_token = token, cell_row = row, cell_col = col,
                       cell_x = padding + col * token_spacing,
                       cell_y = y + row * (token_box_height + 8),
                       cell_filled = (int i < visible_tokens),
                       cell_newest = (int i < visible_tokens \<and> int i = visible_tokens - 1)\<rparr>
                      # cs))))"

text \<open>
  Python's true division \<^verbatim>\<open>/\<close> on integers raises on a zero divisor. The model keeps
  the exact quotient; the float Python computes is its nearest double.
\<close>

definition py_truediv :: "int \<Rightarrow> int \<Rightarrow> py_error + rat" where
  "py_truediv a b = (if b = 0 then Inl ZeroDivisionError else Inr (of_int a / of_int b))"

text \<open>
  The statistics line of lines 176--181: the byte count, the token count and the
  quotient shown (to one decimal) by the text, or \<open>Unknown\<close> for the text
  \<^verbatim>\<open>? bytes -> ? tokens\<close>.
\<close>

datatype stats_text = Compression int int rat | Unknown

definition stats_line :: "int \<Rightarrow> int \<Rightarrow> py_error + stats_text" where
  "stats_line visible_tokens utf8_byte_count =
     (if visible_tokens > 0 \<and> utf8_byte_count > 0
      then (case py_truediv utf8_byte_count visible_tokens of
              Inl e \<Rightarrow> Inl e
            | Inr compression \<Rightarrow> Inr (Compression utf8_byte_count visible_tokens compression))
      else Inr Unknown)"

text \<open>The progress fraction of line 188.\<close>

definition progress_of :: "int \<Rightarrow> int list \<Rightarrow> py_error + rat" where
  "progress_of visible_tokens tokens =
     (if tokens \<noteq> [] then py_truediv visible_tokens (int (length tokens)) else Inr 0)"

text \<open>
  What a frame shows: the input JSON as drawn, the token count of the label, the grid,
  the decoded JSON as drawn (\<open>None\<close> is the text \<^verbatim>\<open>(waiting for tokens...)\<close>), the
  statistics line and the progress fraction.
\<close>

record frame =
  input_drawn :: "placement list"
  visible_count :: int
  token_total :: nat
  cells :: "cell list"
  decoded_drawn :: "placement list option"
  stats :: stats_text
  progress :: rat

text \<open>
  \<^verbatim>\<open>create_frame\<close>. Title, fonts, separators and the canvas height only move pixels; the
  vertical offsets of lines 80--99 and 153--163 are kept because the grid and the decoded
  text are placed with them. The calls into the imaging library (\<^verbatim>\<open>Image.new\<close>,
  \<^verbatim>\<open>draw.rectangle\<close>, \<^verbatim>\<open>draw.text\<close>) are outside the model, so the only failure it
  has is the division by zero of lines 111--112 and 154. The library rejects a canvas
  narrower than twice the padding (a negative size at line 76, a rectangle running
  right to left at line 191): the model stands for the source where the available width
  \<open>width - 2 * padding\<close> is at least 1, and the results on whole animations below ask for
  an available width of at least the box spacing.
\<close>

definition create_frame ::
  "(string \<Rightarrow> int) \<Rightarrow> int \<Rightarrow> string \<Rightarrow> int list \<Rightarrow> int \<Rightarrow> string \<Rightarrow> int \<Rightarrow> py_error + frame"
where
  "create_frame font_width width input_json tokens visible_tokens decoded_json utf8_byte_count =
     (let y0 = padding + 35 + 15 + 22;
          (input_ps, json_height) =
             draw_json_colored font_width padding y0 input_json (width - 2 * padding);
          y1 = y0 + max json_height 20 + 25;
          tpr = tokens_per_row width
      in case token_cells tpr y1 visible_tokens 0 tokens of
           Inl e \<Rightarrow> Inl e
         | Inr cs \<Rightarrow>
            (case py_floordiv (int (length tokens) + tpr - 1) tpr of
               Inl e \<Rightarrow> Inl e
             | Inr num_rows \<Rightarrow>
                (let y2 = y1 + num_rows * (token_box_height + 8) + 15 + 15 + 22;
                     decoded_ps =
                       (if decoded_json \<noteq> []
                        then Some (fst (draw_json_colored font_width padding y2 decoded_json
                                          (width - 2 * padding)))
                        else None)
                 in case stats_line visible_tokens utf8_byte_count of
                      Inl e \<Rightarrow> Inl e
                    | Inr st \<Rightarrow>
                       (case progress_of visible_tokens tokens of
                          Inl e \<Rightarrow> Inl e
                        | Inr pr \<Rightarrow>
                           Inr \<lparr>input_drawn = input_ps,
                                visible_count = visible_tokens,
                                token_total = length tokens,
                                cells = cs,
                                decoded_drawn = decoded_ps,
                                stats = st,
                                progress = pr\<rparr>))))"

section \<open>\<^verbatim>\<open>generate_animation\<close> and the decode loop of \<^verbatim>\<open>main\<close>\<close>

text \<open>
  \<^verbatim>\<open>len(decoded.encode('utf-8'))\<close>. A \<open>char\<close> is read as a code point below 256: one byte
  below 128, two bytes from 128 on.
\<close>

definition utf8_len :: "string \<Rightarrow> int" where
  "utf8_len s = sum_list (map (\<lambda>c. if (of_char c :: nat) < 128 then 1 else 2) s)"

text \<open>The loop of lines 322--335 over \<^verbatim>\<open>enumerate(decoded_states)\<close>.\<close>

fun token_frames ::
  "(string \<Rightarrow> int) \<Rightarrow> int \<Rightarrow> string \<Rightarrow> int list \<Rightarrow> nat \<Rightarrow> (string \<times> int) list
     \<Rightarrow> py_error + frame list"
where
  "token_frames font_width width json_str tokens i [] = Inr []"
| "token_frames font_width width json_str tokens i ((decoded, token) # rest) =
     (let decoded_bytes = (if decoded \<noteq> [] then utf8_len decoded else 0)
      in case create_frame font_width width json_str tokens (int i + 1)
                (if decoded \<noteq> [] then decoded else ''{}'') decoded_bytes of
           Inl e \<Rightarrow> Inl e
         | Inr frame \<Rightarrow>
            (case token_frames font_width width json_str tokens (Suc i) rest of
               Inl e \<Rightarrow> Inl e
             | Inr fs \<Rightarrow> Inr (frame # fs)))"

text \<open>
  \<^verbatim>\<open>generate_animation\<close>: the frames handed to the GIF writer with their durations
  (line 354). The function returns \<^verbatim>\<open>len(frames)\<close>.
\<close>

definition generate_animation ::
  "(string \<Rightarrow> int) \<Rightarrow> string \<Rightarrow> int list \<Rightarrow> (string \<times> int) list \<Rightarrow> int \<Rightarrow> int
     \<Rightarrow> py_error + (frame list \<times> int list)"
where
  "generate_animation font_width json_str tokens decoded_states width frame_duration =
     (case create_frame font_width width json_str tokens 0 [] 0 of
        Inl e \<Rightarrow> Inl e
      | Inr first_frame \<Rightarrow>
         (case token_frames font_width width json_str tokens 0 decoded_states of
            Inl e \<Rightarrow> Inl e
          | Inr fs \<Rightarrow>
             (let final_decoded =
                    (if decoded_states \<noteq> [] then fst (last decoded_states) else ''{}'');
                  final_bytes = (if final_decoded \<noteq> [] then utf8_len final_decoded else 0)
              in case create_frame font_width width json_str tokens (int (length tokens))
                        final_decoded final_bytes of
                   Inl e \<Rightarrow> Inl e
                 | Inr final_frame \<Rightarrow>
                    (let frames = first_frame # fs @ [final_frame];
                         durations = replicate (length frames - 1) frame_duration
                                       @ [frame_duration * 3]
                     in Inr (frames, durations)))))"

text \<open>
  The loop of \<^verbatim>\<open>main\<close>, lines 389--394: one call of the external
  \<^verbatim>\<open>tct.decode_prefix\<close> per prefix \<^verbatim>\<open>tokens[:i+1]\<close>. The decoder is a parameter; \<open>None\<close>
  is a call that raises, which ends the run.
\<close>

fun decoded_states_loop ::
  "(int list \<Rightarrow> string option) \<Rightarrow> int list \<Rightarrow> nat list \<Rightarrow> py_error + (string \<times> int) list"
where
  "decoded_states_loop decode_prefix tokens [] = Inr []"
| "decoded_states_loop decode_prefix tokens (i # is) =
     (case decode_prefix (take (i + 1) tokens) of
        None \<Rightarrow> Inl DecodeFailure
      | Some decoded \<Rightarrow>
         (case decoded_states_loop decode_prefix tokens is of
            Inl e \<Rightarrow> Inl e
          | Inr ds \<Rightarrow> Inr ((decoded, tokens ! i) # ds)))"

text \<open>Lines 389--405 of \<^verbatim>\<open>main\<close>: decode every prefix, then build the animation.\<close>

definition build_schedule ::
  "(string \<Rightarrow> int) \<Rightarrow> (int list \<Rightarrow> string option) \<Rightarrow> string \<Rightarrow> int list \<Rightarrow> int \<Rightarrow> int
     \<Rightarrow> py_error + (frame list \<times> int list)"
where
  "build_schedule font_width decode_prefix json_str tokens width frame_duration =
     (case decoded_states_loop decode_prefix tokens [0..<length tokens] of
        Inl e \<Rightarrow> Inl e
      | Inr decoded_states \<Rightarrow>
         generate_animation font_width json_str tokens decoded_states width frame_duration)"

section \<open>Invariants of the scan\<close>

text \<open>Everything consumed so far: the emitted segments followed by the open run.\<close>

definition consumed :: "cstate \<Rightarrow> string" where
  "consumed st = concat (map fst (segments st)) @ current_text st"

text \<open>No emitted segment has an empty text.\<close>

definition nonempty_segs :: "cstate \<Rightarrow> bool" where
  "nonempty_segs st = list_all (\<lambda>sg. fst sg \<noteq> []) (segments st)"

section \<open>Sample inputs\<close>

definition json_ab :: string where
  \<open>json_ab = ''{"a":"b"}''\<close>

definition quoted_brace :: string where
  \<open>quoted_brace = ''"a{b"''\<close>

definition pod_json :: string where
  \<open>pod_json = ''{"apiVersion":"v1","kind":"Pod"}''\<close>

text \<open>A fixed-pitch font of eight pixels per character, for the concrete runs below.\<close>

definition mono_width :: "string \<Rightarrow> int" where
  "mono_width s = 8 * int (length s)"

text \<open>
  A stub decoder: the empty string for a prefix shorter than seven tokens, the whole
  input at seven.
\<close>

definition stub_decode_prefix :: "int list \<Rightarrow> string option" where
  "stub_decode_prefix prefix = (if length prefix < 7 then Some [] else Some pod_json)"

definition seven_tokens :: "int list" where
  "seven_tokens = [11, 22, 33, 44, 55, 66, 77]"

section \<open>Classifier properties\<close>

lemma consumed_flush: "consumed (flush_segment st) = consumed st"
  by (simp add: consumed_def flush_segment_def)

lemma consumed_append: "consumed (append_char c st) = consumed st @ [c]"
  by (simp add: consumed_def append_char_def)

lemma consumed_flush_append:
  "consumed (flush_segment (append_char c st)) = consumed st @ [c]"
  by (simp add: consumed_flush consumed_append)

lemma consumed_upd [simp]:
  "consumed (st\<lparr>current_color := k\<rparr>) = consumed st"
  "consumed (st\<lparr>escape_next := b\<rparr>) = consumed st"
  "consumed (st\<lparr>in_string := b\<rparr>) = consumed st"
  "consumed (st\<lparr>in_key := b\<rparr>) = consumed st"
  by (simp_all add: consumed_def)

lemma consumed_step: "consumed (classify_step c rest st) = consumed st @ [c]"
  by (simp add: classify_step_def Let_def consumed_flush consumed_append
      consumed_flush_append)

lemma consumed_loop: "consumed (classify_loop cs st) = consumed st @ cs"
  by (induction cs arbitrary: st) (simp_all add: consumed_step)

lemma nonempty_flush: "nonempty_segs st \<Longrightarrow> nonempty_segs (flush_segment st)"
  by (simp add: nonempty_segs_def flush_segment_def)

lemma nonempty_append: "nonempty_segs (append_char c st) = nonempty_segs st"
  by (simp add: nonempty_segs_def append_char_def)

lemma nonempty_upd [simp]:
  "nonempty_segs (st\<lparr>current_color := k\<rparr>) = nonempty_segs st"
  "nonempty_segs (st\<lparr>escape_next := b\<rparr>) = nonempty_segs st"
  "nonempty_segs (st\<lparr>in_string := b\<rparr>) = nonempty_segs st"
  "nonempty_segs (st\<lparr>in_key := b\<rparr>) = nonempty_segs st"
  by (simp_all add: nonempty_segs_def)

lemma nonempty_step: "nonempty_segs st \<Longrightarrow> nonempty_segs (classify_step c rest st)"
  by (simp add: classify_step_def Let_def nonempty_flush nonempty_append)

lemma nonempty_loop: "nonempty_segs st \<Longrightarrow> nonempty_segs (classify_loop cs st)"
  by (induction cs arbitrary: st) (simp_all add: nonempty_step)

text \<open>
  C1. For every input string, the texts of the segments emitted by the classifier,
  concatenated in emission order, are exactly the input: no character is dropped,
  duplicated or reordered.
\<close>

theorem classify_round_trip: "concat (map fst (classify s)) = s"
proof -
  let ?st = "flush_segment (classify_loop s init_cstate)"
  have "consumed ?st = s"
    by (simp add: consumed_flush consumed_loop) (simp add: consumed_def init_cstate_def)
  moreover have "current_text ?st = []"
    by (simp add: flush_segment_def)
  ultimately show ?thesis
    by (simp add: classify_def consumed_def)
qed

text \<open>
  C10. Every segment emitted by the classifier has a non-empty text: the flush step
  discards an empty accumulator, so no pair with text \<open>''''\<close> appears in the output.
\<close>

theorem classify_segments_nonempty: "[] \<notin> set (map fst (classify s))"
proof -
  have "nonempty_segs init_cstate"
    by (simp add: nonempty_segs_def init_cstate_def)
  then have "nonempty_segs (flush_segment (classify_loop s init_cstate))"
    by (intro nonempty_flush nonempty_loop)
  then show ?thesis
    by (auto simp: classify_def nonempty_segs_def list_all_iff)
qed

text \<open>
  C2. On the input \<^verbatim>\<open>{"a":"b"}\<close> the classifier emits five segments; both quoted runs
  get the value colour. For the first one the rest of the input is \<^verbatim>\<open>a":"b"}\<close>, where the
  closing quote (index 1) comes before the colon (index 2), so the key test of line 244
  is false.
\<close>

theorem json_ab_segments:
  "classify json_ab =
     [(''{'', Json_bracket), ([CHR 0x22, CHR ''a'', CHR 0x22], Json_value),
      ('':'', Text_dim), ([CHR 0x22, CHR ''b'', CHR 0x22], Json_value),
      (''}'', Json_bracket)]"
  by code_simp

text \<open>
  C5. On the input \<^verbatim>\<open>"a{b"\<close> the brace inside the string ends the open value run and
  is emitted as a bracket segment of its own; the rest of the string is emitted in the
  plain colour.
\<close>

theorem quoted_brace_segments:
  "classify quoted_brace =
     [([CHR 0x22, CHR ''a''], Json_value), (''{'', Json_bracket),
      ([CHR ''b'', CHR 0x22], Text)]"
  by code_simp

section \<open>Layout properties\<close>

lemma fst_layout_loop_Nil: "fst (layout_loop fw x mw [] cx cy) = []"
  by simp

lemma fst_layout_loop_Cons:
  "fst (layout_loop fw x mw ((t, c) # segs) cx cy) =
     \<lparr>ptext = t, pcolor = c,
      px = (if wrap_needed x mw cx (fw t) then x + 20 else cx),
      py = (if wrap_needed x mw cx (fw t) then cy + line_height else cy)\<rparr>
     # fst (layout_loop fw x mw segs
              ((if wrap_needed x mw cx (fw t) then x + 20 else cx) + fw t)
              (if wrap_needed x mw cx (fw t) then cy + line_height else cy))"
  by (simp add: Let_def case_prod_beta)

lemma layout_loop_segs:
  "map (\<lambda>p. (ptext p, pcolor p)) (fst (layout_loop fw x mw segs cx cy)) = segs"
proof (induction segs arbitrary: cx cy)
  case Nil
  show ?case by simp
next
  case (Cons sg segs)
  obtain t c where sg: "sg = (t, c)" by (cases sg)
  show ?case unfolding sg fst_layout_loop_Cons by (simp add: Cons.IH)
qed

lemma layout_loop_length:
  "length (fst (layout_loop fw x mw segs cx cy)) = length segs"
proof -
  have "length (map (\<lambda>p. (ptext p, pcolor p)) (fst (layout_loop fw x mw segs cx cy)))
        = length segs"
    by (simp only: layout_loop_segs)
  then show ?thesis by simp
qed

lemma layout_loop_py_lower:
  "p \<in> set (fst (layout_loop fw x mw segs cx cy)) \<Longrightarrow> cy \<le> py p"
proof (induction segs arbitrary: cx cy)
  case Nil
  then show ?case by simp
next
  case (Cons sg segs)
  obtain t c where sg: "sg = (t, c)" by (cases sg)
  let ?w = "wrap_needed x mw cx (fw t)"
  let ?cx = "if ?w then x + 20 else cx"
  let ?cy = "if ?w then cy + line_height else cy"
  have "p = \<lparr>ptext = t, pcolor = c, px = ?cx, py = ?cy\<rparr>
        \<or> p \<in> set (fst (layout_loop fw x mw segs (?cx + fw t) ?cy))"
    using Cons.prems unfolding sg fst_layout_loop_Cons by auto
  then show ?case
  proof
    assume "p = \<lparr>ptext = t, pcolor = c, px = ?cx, py = ?cy\<rparr>"
    then show ?thesis by (simp add: line_height_def)
  next
    assume "p \<in> set (fst (layout_loop fw x mw segs (?cx + fw t) ?cy))"
    then have "?cy \<le> py p" by (rule Cons.IH)
    then show ?thesis by (simp add: line_height_def split: if_splits)
  qed
qed

lemma layout_loop_sorted_py:
  "sorted (map py (fst (layout_loop fw x mw segs cx cy)))"
proof (induction segs arbitrary: cx cy)
  case Nil
  then show ?case by simp
next
  case (Cons sg segs)
  obtain t c where sg: "sg = (t, c)" by (cases sg)
  show ?case unfolding sg fst_layout_loop_Cons
    using Cons.IH layout_loop_py_lower by fastforce
qed

lemma layout_loop_lex_lower:
  assumes "\<forall>t. 0 \<le> fw t"
  shows "p \<in> set (fst (layout_loop fw x mw segs cx cy)) \<Longrightarrow> (cy, cx) \<le> (py p, px p)"
proof (induction segs arbitrary: cx cy)
  case Nil
  then show ?case by simp
next
  case (Cons sg segs)
  obtain t c where sg: "sg = (t, c)" by (cases sg)
  let ?w = "wrap_needed x mw cx (fw t)"
  let ?cx = "if ?w then x + 20 else cx"
  let ?cy = "if ?w then cy + line_height else cy"
  have w0: "0 \<le> fw t" using assms by simp
  have "p = \<lparr>ptext = t, pcolor = c, px = ?cx, py = ?cy\<rparr>
        \<or> p \<in> set (fst (layout_loop fw x mw segs (?cx + fw t) ?cy))"
    using Cons.prems unfolding sg fst_layout_loop_Cons by auto
  then show ?case
  proof
    assume "p = \<lparr>ptext = t, pcolor = c, px = ?cx, py = ?cy\<rparr>"
    then show ?thesis by (simp add: line_height_def)
  next
    assume "p \<in> set (fst (layout_loop fw x mw segs (?cx + fw t) ?cy))"
    then have "(?cy, ?cx + fw t) \<le> (py p, px p)" by (rule Cons.IH)
    with w0 show ?thesis by (auto simp: line_height_def split: if_splits)
  qed
qed

lemma layout_loop_sorted_lex:
  assumes "\<forall>t. 0 \<le> fw t"
  shows "sorted (map (\<lambda>p. (py p, px p)) (fst (layout_loop fw x mw segs cx cy)))"
proof (induction segs arbitrary: cx cy)
  case Nil
  then show ?case by simp
next
  case (Cons sg segs)
  obtain t c where sg: "sg = (t, c)" by (cases sg)
  let ?w = "wrap_needed x mw cx (fw t)"
  let ?cx = "if ?w then x + 20 else cx"
  let ?cy = "if ?w then cy + line_height else cy"
  let ?rest = "fst (layout_loop fw x mw segs (?cx + fw t) ?cy)"
  have w0: "0 \<le> fw t" using assms by simp
  have eq: "fst (layout_loop fw x mw (sg # segs) cx cy)
            = \<lparr>ptext = t, pcolor = c, px = ?cx, py = ?cy\<rparr> # ?rest"
    unfolding sg fst_layout_loop_Cons by simp
  have "\<forall>p \<in> set ?rest. (?cy, ?cx) \<le> (py p, px p)"
  proof
    fix p assume "p \<in> set ?rest"
    then have "(?cy, ?cx + fw t) \<le> (py p, px p)"
      by (rule layout_loop_lex_lower [OF assms])
    with w0 show "(?cy, ?cx) \<le> (py p, px p)" by auto
  qed
  moreover have "sorted (map (\<lambda>p. (py p, px p)) ?rest)" by (rule Cons.IH)
  ultimately show ?case unfolding eq by simp
qed

lemma fst_layout_segments:
  "fst (layout_segments fw x y mw segs) = fst (layout_loop fw x mw segs x y)"
  by (simp add: layout_segments_def split: prod.splits)

text \<open>
  C6. For every segment sequence and every maximum width, the layout places each input
  segment exactly once and in input order: the placed texts, in the order of the draw
  calls, are the input texts (so their concatenations agree), and the vertical position
  never decreases from one placement to the next. With non-negative text widths the
  draw order is the reading order: sorting the placements by line and then by horizontal
  position leaves them as they are.
\<close>

theorem layout_preserves_order:
  "map (\<lambda>p. (ptext p, pcolor p)) (fst (layout_segments fw x y mw segs)) = segs
   \<and> concat (map ptext (fst (layout_segments fw x y mw segs))) = concat (map fst segs)
   \<and> sorted (map py (fst (layout_segments fw x y mw segs)))
   \<and> ((\<forall>t. 0 \<le> fw t) \<longrightarrow>
        sort_key (\<lambda>p. (py p, px p)) (fst (layout_segments fw x y mw segs))
          = fst (layout_segments fw x y mw segs))"
proof -
  let ?ps = "fst (layout_segments fw x y mw segs)"
  have a: "map (\<lambda>p. (ptext p, pcolor p)) ?ps = segs"
    by (simp add: fst_layout_segments layout_loop_segs)
  have "map fst (map (\<lambda>p. (ptext p, pcolor p)) ?ps) = map fst segs"
    by (simp only: a)
  then have b: "map ptext ?ps = map fst segs"
    by (simp add: comp_def)
  have c: "sorted (map py ?ps)"
    by (simp add: fst_layout_segments layout_loop_sorted_py)
  have d: "(\<forall>t. 0 \<le> fw t) \<longrightarrow> sort_key (\<lambda>p. (py p, px p)) ?ps = ?ps"
    by (auto simp: fst_layout_segments intro: sort_key_id_if_sorted layout_loop_sorted_lex)
  from a b c d show ?thesis by simp
qed

theorem layout_preserves_order_witness:
  "(\<forall>t. 0 \<le> mono_width t)
   \<and> sort_key (\<lambda>p. (py p, px p)) (fst (layout_segments mono_width 25 97 100 (classify pod_json)))
       = fst (layout_segments mono_width 25 97 100 (classify pod_json))"
proof -
  have h: "\<forall>t. 0 \<le> mono_width t"
    by (simp add: mono_width_def)
  from layout_preserves_order [of mono_width 25 97 100 "classify pod_json"] h
  show ?thesis by blast
qed

lemma layout_loop_next:
  "Suc k < length segs \<Longrightarrow>
   px (fst (layout_loop fw x mw segs cx cy) ! Suc k) =
     (if wrap_needed x mw
           (px (fst (layout_loop fw x mw segs cx cy) ! k)
              + fw (ptext (fst (layout_loop fw x mw segs cx cy) ! k)))
           (fw (ptext (fst (layout_loop fw x mw segs cx cy) ! Suc k)))
      then x + 20
      else px (fst (layout_loop fw x mw segs cx cy) ! k)
             + fw (ptext (fst (layout_loop fw x mw segs cx cy) ! k)))
   \<and> py (fst (layout_loop fw x mw segs cx cy) ! Suc k) =
     (if wrap_needed x mw
           (px (fst (layout_loop fw x mw segs cx cy) ! k)
              + fw (ptext (fst (layout_loop fw x mw segs cx cy) ! k)))
           (fw (ptext (fst (layout_loop fw x mw segs cx cy) ! Suc k)))
      then py (fst (layout_loop fw x mw segs cx cy) ! k) + line_height
      else py (fst (layout_loop fw x mw segs cx cy) ! k))"
proof (induction segs arbitrary: cx cy k)
  case Nil
  then show ?case by simp
next
  case (Cons sg segs)
  obtain t c where sg: "sg = (t, c)" by (cases sg)
  show ?case
  proof (cases k)
    case 0
    with Cons.prems obtain t' c' segs' where segs: "segs = (t', c') # segs'"
      by (cases segs) auto
    show ?thesis
      unfolding sg segs 0 fst_layout_loop_Cons by simp
  next
    case (Suc j)
    with Cons.prems have "Suc j < length segs" by simp
    from Cons.IH [OF this] show ?thesis
      unfolding sg Suc fst_layout_loop_Cons by simp
  qed
qed

lemma layout_loop_first:
  "segs \<noteq> [] \<Longrightarrow>
   px (fst (layout_loop fw x mw segs cx cy) ! 0) =
     (if wrap_needed x mw cx (fw (fst (segs ! 0))) then x + 20 else cx)
   \<and> py (fst (layout_loop fw x mw segs cx cy) ! 0) =
     (if wrap_needed x mw cx (fw (fst (segs ! 0))) then cy + line_height else cy)"
proof (cases segs)
  case Nil
  assume "segs \<noteq> []"
  with Nil show ?thesis by simp
next
  case (Cons sg segs')
  obtain t c where sg: "sg = (t, c)" by (cases sg)
  show ?thesis unfolding Cons sg fst_layout_loop_Cons by simp
qed

lemma layout_loop_nth_seg:
  assumes "k < length segs"
  shows "ptext (fst (layout_loop fw x mw segs cx cy) ! k) = fst (segs ! k)
       \<and> pcolor (fst (layout_loop fw x mw segs cx cy) ! k) = snd (segs ! k)"
proof -
  let ?ps = "fst (layout_loop fw x mw segs cx cy)"
  have "map (\<lambda>p. (ptext p, pcolor p)) ?ps ! k = segs ! k"
    by (simp only: layout_loop_segs)
  moreover have "k < length ?ps"
    using assms by (simp add: layout_loop_length)
  ultimately have "(ptext (?ps ! k), pcolor (?ps ! k)) = segs ! k"
    by simp
  then show ?thesis by (metis fst_conv snd_conv)
qed

text \<open>
  C7. The layout never splits or alters a segment and cannot fail: there is one
  placement per segment, carrying the segment's text and colour, also when the segment
  is wider than the maximum width. The first segment is placed at the start position.
  Every later segment is placed either at the cursor left by its predecessor, on the
  same line, or, after a line break, at the left margin plus the indent of 20 on the next
  line; a break happens only when the cursor is to the right of the left margin (so the
  predecessor is on the line being left) and the segment would end beyond the right
  edge. In particular a segment wider than the maximum width is placed whole, at the
  cursor when that is at the left margin and at the start of a continuation line
  otherwise.
\<close>

theorem layout_places_whole_segments:
  assumes "k < length segs"
  shows "length (fst (layout_segments fw x y mw segs)) = length segs
    \<and> ptext (fst (layout_segments fw x y mw segs) ! k) = fst (segs ! k)
    \<and> pcolor (fst (layout_segments fw x y mw segs) ! k) = snd (segs ! k)
    \<and> (k = 0 \<longrightarrow> px (fst (layout_segments fw x y mw segs) ! k) = x
                 \<and> py (fst (layout_segments fw x y mw segs) ! k) = y)
    \<and> (0 < k \<longrightarrow>
         (let prev = fst (layout_segments fw x y mw segs) ! (k - 1);
              cur = fst (layout_segments fw x y mw segs) ! k;
              cursor_x = px prev + fw (ptext prev)
          in (py cur = py prev \<and> px cur = cursor_x
                \<and> \<not> wrap_needed x mw cursor_x (fw (fst (segs ! k))))
           \<or> (py cur = py prev + line_height \<and> px cur = x + 20
                \<and> x < cursor_x \<and> x + mw < cursor_x + fw (fst (segs ! k)))))
    \<and> (mw < fw (fst (segs ! k)) \<longrightarrow> 0 < k \<longrightarrow>
         (let prev = fst (layout_segments fw x y mw segs) ! (k - 1);
              cur = fst (layout_segments fw x y mw segs) ! k;
              cursor_x = px prev + fw (ptext prev)
          in (px cur, py cur) =
               (if x < cursor_x then (x + 20, py prev + line_height) else (cursor_x, py prev))))"
proof -
  let ?ps = "fst (layout_loop fw x mw segs x y)"
  have ps: "fst (layout_segments fw x y mw segs) = ?ps"
    by (rule fst_layout_segments)
  have len: "length ?ps = length segs"
    by (rule layout_loop_length)
  have seg: "ptext (?ps ! k) = fst (segs ! k) \<and> pcolor (?ps ! k) = snd (segs ! k)"
    by (rule layout_loop_nth_seg [OF assms])
  have first: "k = 0 \<longrightarrow> px (?ps ! k) = x \<and> py (?ps ! k) = y"
  proof
    assume k: "k = 0"
    from assms have "segs \<noteq> []" by auto
    from layout_loop_first [OF this, of fw x mw x y] show "px (?ps ! k) = x \<and> py (?ps ! k) = y"
      by (simp add: k wrap_needed_def)
  qed
  have step: "0 < k \<longrightarrow>
      px (?ps ! k) =
        (if wrap_needed x mw (px (?ps ! (k - 1)) + fw (ptext (?ps ! (k - 1)))) (fw (fst (segs ! k)))
         then x + 20 else px (?ps ! (k - 1)) + fw (ptext (?ps ! (k - 1))))
      \<and> py (?ps ! k) =
        (if wrap_needed x mw (px (?ps ! (k - 1)) + fw (ptext (?ps ! (k - 1)))) (fw (fst (segs ! k)))
         then py (?ps ! (k - 1)) + line_height else py (?ps ! (k - 1)))"
  proof
    assume "0 < k"
    then obtain j where j: "k = Suc j" by (cases k) auto
    with assms have "Suc j < length segs" by simp
    from layout_loop_next [OF this, of fw x mw x y] seg
    show "px (?ps ! k) =
        (if wrap_needed x mw (px (?ps ! (k - 1)) + fw (ptext (?ps ! (k - 1)))) (fw (fst (segs ! k)))
         then x + 20 else px (?ps ! (k - 1)) + fw (ptext (?ps ! (k - 1))))
      \<and> py (?ps ! k) =
        (if wrap_needed x mw (px (?ps ! (k - 1)) + fw (ptext (?ps ! (k - 1)))) (fw (fst (segs ! k)))
         then py (?ps ! (k - 1)) + line_height else py (?ps ! (k - 1)))"
      by (simp add: j)
  qed
  have brk: "0 < k \<longrightarrow>
         (let prev = ?ps ! (k - 1); cur = ?ps ! k; cursor_x = px prev + fw (ptext prev)
          in (py cur = py prev \<and> px cur = cursor_x
                \<and> \<not> wrap_needed x mw cursor_x (fw (fst (segs ! k))))
           \<or> (py cur = py prev + line_height \<and> px cur = x + 20
                \<and> x < cursor_x \<and> x + mw < cursor_x + fw (fst (segs ! k))))"
    using step by (auto simp: Let_def wrap_needed_def)
  have wide: "mw < fw (fst (segs ! k)) \<longrightarrow> 0 < k \<longrightarrow>
         (let prev = ?ps ! (k - 1); cur = ?ps ! k; cursor_x = px prev + fw (ptext prev)
          in (px cur, py cur) =
               (if x < cursor_x then (x + 20, py prev + line_height) else (cursor_x, py prev)))"
    using step by (auto simp: Let_def wrap_needed_def)
  from len seg first brk wide show ?thesis
    unfolding ps by blast
qed

theorem layout_places_whole_segments_witness:
  "1 < length (classify pod_json)
   \<and> 50 < mono_width (fst (classify pod_json ! 1))
   \<and> ptext (fst (layout_segments mono_width 25 97 50 (classify pod_json)) ! 1)
       = fst (classify pod_json ! 1)
   \<and> px (fst (layout_segments mono_width 25 97 50 (classify pod_json)) ! 1) = 45
   \<and> py (fst (layout_segments mono_width 25 97 50 (classify pod_json)) ! 1) = 115
   \<and> px (fst (layout_segments mono_width 25 97 50 (classify pod_json)) ! 0) = 25
   \<and> py (fst (layout_segments mono_width 25 97 50 (classify pod_json)) ! 0) = 97"
proof -
  let ?ps = "fst (layout_segments mono_width 25 97 50 (classify pod_json))"
  have h0: "0 < length (classify pod_json)" by code_simp
  have h1: "1 < length (classify pod_json)" by code_simp
  have h2: "50 < mono_width (fst (classify pod_json ! 1))" by code_simp
  have prev: "px (?ps ! 0) + mono_width (ptext (?ps ! 0)) = 33" "py (?ps ! 0) = 97"
    by code_simp+
  note T0 = layout_places_whole_segments [OF h0, of mono_width 25 97 50]
  note T1 = layout_places_whole_segments [OF h1, of mono_width 25 97 50]
  from T0 have a: "px (?ps ! 0) = 25 \<and> py (?ps ! 0) = 97" by simp
  from T1 have b: "ptext (?ps ! 1) = fst (classify pod_json ! 1)" by simp
  from T1 h2 prev have c: "px (?ps ! 1) = 45 \<and> py (?ps ! 1) = 115"
    by (simp add: Let_def line_height_def)
  from h1 h2 a b c show ?thesis by simp
qed

section \<open>Frames: token grid and statistics\<close>

lemma stats_line_eq:
  "stats_line v b =
     (if 0 < v \<and> 0 < b then Inr (Compression b v (of_int b / of_int v)) else Inr Unknown)"
  by (simp add: stats_line_def py_truediv_def)

lemma progress_of_ok: "\<exists>pr. progress_of v tokens = Inr pr"
  by (simp add: progress_of_def py_truediv_def)

lemma token_cells_ok:
  assumes "tpr \<noteq> 0"
  shows "\<exists>cs. token_cells tpr y v i tokens = Inr cs \<and> length cs = length tokens
           \<and> (\<forall>j<length tokens. cell_row (cs ! j) = int (i + j) div tpr
                                \<and> cell_col (cs ! j) = int (i + j) mod tpr)"
proof (induction tokens arbitrary: i)
  case Nil
  show ?case by simp
next
  case (Cons token rest)
  from Cons.IH [of "Suc i"] obtain cs where
    cs: "token_cells tpr y v (Suc i) rest = Inr cs" "length cs = length rest"
    and nth: "\<forall>j<length rest. cell_row (cs ! j) = int (Suc i + j) div tpr
                               \<and> cell_col (cs ! j) = int (Suc i + j) mod tpr"
    by blast
  let ?c = "\<lparr>cell_token = token, cell_row = int i div tpr, cell_col = int i mod tpr,
             cell_x = padding + (int i mod tpr) * token_spacing,
             cell_y = y + (int i div tpr) * (token_box_height + 8),
             cell_filled = (int i < v),
             cell_newest = (int i < v \<and> int i = v - 1)\<rparr>"
  have eq: "token_cells tpr y v i (token # rest) = Inr (?c # cs)"
    using assms cs(1) by (simp add: py_floordiv_def py_mod_def)
  have "\<forall>j<length (token # rest). cell_row ((?c # cs) ! j) = int (i + j) div tpr
                                   \<and> cell_col ((?c # cs) ! j) = int (i + j) mod tpr"
  proof (intro allI impI)
    fix j assume j: "j < length (token # rest)"
    show "cell_row ((?c # cs) ! j) = int (i + j) div tpr
          \<and> cell_col ((?c # cs) ! j) = int (i + j) mod tpr"
    proof (cases j)
      case 0
      then show ?thesis by simp
    next
      case (Suc j')
      with j have "j' < length rest" by simp
      with nth have "cell_row (cs ! j') = int (Suc i + j') div tpr
                     \<and> cell_col (cs ! j') = int (Suc i + j') mod tpr" by blast
      then show ?thesis by (simp add: Suc)
    qed
  qed
  with eq cs(2) show ?case by simp
qed

lemma token_cells_zero:
  "tokens \<noteq> [] \<Longrightarrow> token_cells 0 y v i tokens = Inl ZeroDivisionError"
  by (cases tokens) (simp_all add: py_floordiv_def)

lemma create_frame_zero:
  assumes "tokens_per_row width = 0"
  shows "create_frame fw width ij tokens v dj b = Inl ZeroDivisionError"
proof (cases tokens)
  case Nil
  then show ?thesis
    using assms by (simp add: create_frame_def Let_def py_floordiv_def split: prod.splits)
next
  case (Cons t ts)
  then have "tokens \<noteq> []" by simp
  then show ?thesis
    using assms by (simp add: create_frame_def Let_def token_cells_zero split: prod.splits)
qed

lemma create_frame_ok:
  assumes "tokens_per_row width \<noteq> 0"
  shows "\<exists>f. create_frame fw width ij tokens v dj b = Inr f
           \<and> visible_count f = v
           \<and> (\<exists>st. stats_line v b = Inr st \<and> stats f = st)
           \<and> length (cells f) = length tokens
           \<and> (\<forall>j<length tokens.
                 cell_row (cells f ! j) = int j div tokens_per_row width
                 \<and> cell_col (cells f ! j) = int j mod tokens_per_row width)"
proof -
  obtain input_ps json_height where
    dj: "draw_json_colored fw padding (padding + 35 + 15 + 22) ij (width - 2 * padding)
          = (input_ps, json_height)"
    by (cases "draw_json_colored fw padding (padding + 35 + 15 + 22) ij (width - 2 * padding)")
  from token_cells_ok [OF assms, of "padding + 35 + 15 + 22 + max json_height 20 + 25" v 0 tokens]
  obtain cs where
    cs: "token_cells (tokens_per_row width) (padding + 35 + 15 + 22 + max json_height 20 + 25)
           v 0 tokens = Inr cs" "length cs = length tokens"
    and nth: "\<forall>j<length tokens. cell_row (cs ! j) = int j div tokens_per_row width
                               \<and> cell_col (cs ! j) = int j mod tokens_per_row width"
    by auto
  have "\<exists>st. stats_line v b = Inr st"
    by (simp add: stats_line_eq)
  then obtain st where st: "stats_line v b = Inr st" ..
  obtain pr where pr: "progress_of v tokens = Inr pr"
    using progress_of_ok by blast
  show ?thesis
    using assms dj cs nth st pr
    by (simp add: create_frame_def Let_def py_floordiv_def)
qed

text \<open>
  C3, as the code has it. For every token index \<open>i\<close>, the box is drawn in row
  \<open>i div tokensPerRow\<close> and column \<open>i mod tokensPerRow\<close>, where \<open>tokensPerRow\<close> is the
  floor of the available width over the box spacing, whenever the available width is at
  least the box spacing. Nothing clamps \<open>tokensPerRow\<close>: for an available width from 1
  up to the box spacing minus one it is 0, and building the frame raises
  \<^verbatim>\<open>ZeroDivisionError\<close>.
\<close>

theorem grid_position_unclamped:
  "(1 \<le> width - 2 * padding \<and> width - 2 * padding < token_spacing \<longrightarrow>
      tokens_per_row width = 0
      \<and> create_frame fw width input_json tokens visible decoded bytes = Inl ZeroDivisionError)
   \<and> (token_spacing \<le> width - 2 * padding \<longrightarrow>
      1 \<le> tokens_per_row width
      \<and> (\<exists>f. create_frame fw width input_json tokens visible decoded bytes = Inr f
             \<and> length (cells f) = length tokens
             \<and> (\<forall>i<length tokens.
                   cell_row (cells f ! i) = int i div tokens_per_row width
                   \<and> cell_col (cells f ! i) = int i mod tokens_per_row width)))"
proof (intro conjI impI)
  assume a: "1 \<le> width - 2 * padding \<and> width - 2 * padding < token_spacing"
  then show z: "tokens_per_row width = 0"
    by (simp add: tokens_per_row_def token_spacing_def)
  then show "create_frame fw width input_json tokens visible decoded bytes = Inl ZeroDivisionError"
    by (rule create_frame_zero)
next
  assume a: "token_spacing \<le> width - 2 * padding"
  then show p: "1 \<le> tokens_per_row width"
    by (simp add: tokens_per_row_def token_spacing_def pos_imp_zdiv_pos_iff)
  then have "tokens_per_row width \<noteq> 0" by simp
  from create_frame_ok [OF this, of fw input_json tokens visible decoded bytes]
  show "\<exists>f. create_frame fw width input_json tokens visible decoded bytes = Inr f
             \<and> length (cells f) = length tokens
             \<and> (\<forall>i<length tokens.
                   cell_row (cells f ! i) = int i div tokens_per_row width
                   \<and> cell_col (cells f ! i) = int i mod tokens_per_row width)"
    by blast
qed

theorem grid_position_unclamped_witness:
  "1 \<le> 100 - 2 * padding \<and> 100 - 2 * padding < token_spacing
   \<and> create_frame mono_width 100 json_ab [1, 2, 3] 0 [] 0 = Inl ZeroDivisionError
   \<and> token_spacing \<le> 200 - 2 * padding
   \<and> tokens_per_row 200 = 2
   \<and> (\<exists>f. create_frame mono_width 200 pod_json seven_tokens 3 [] 0 = Inr f
          \<and> cell_row (cells f ! 5) = 2 \<and> cell_col (cells f ! 5) = 1)"
proof -
  have a: "1 \<le> 100 - 2 * padding \<and> 100 - 2 * padding < token_spacing"
    by (simp add: padding_def token_spacing_def)
  have b: "token_spacing \<le> 200 - 2 * padding"
    by (simp add: padding_def token_spacing_def)
  have t: "tokens_per_row 200 = 2"
    by (simp add: tokens_per_row_def padding_def token_spacing_def)
  have n: "(5::nat) < length seven_tokens"
    by (simp add: seven_tokens_def)
  from grid_position_unclamped [of 100 mono_width json_ab "[1, 2, 3]" 0 "[]" 0] a
  have c: "create_frame mono_width 100 json_ab [1, 2, 3] 0 [] 0 = Inl ZeroDivisionError"
    by blast
  from grid_position_unclamped [of 200 mono_width pod_json seven_tokens 3 "[]" 0] b
  obtain f where f: "create_frame mono_width 200 pod_json seven_tokens 3 [] 0 = Inr f"
    and nth: "\<forall>i<length seven_tokens.
                cell_row (cells f ! i) = int i div tokens_per_row 200
                \<and> cell_col (cells f ! i) = int i mod tokens_per_row 200"
    by blast
  from nth n have "cell_row (cells f ! 5) = 2 \<and> cell_col (cells f ! 5) = 1"
    by (simp add: t)
  with a b c t f show ?thesis by blast
qed

text \<open>
  The claim as written fails at width 100: the available width is 50, below the box
  spacing of 56, \<open>tokensPerRow\<close> is 0 rather than 1, and the frame is not built.
\<close>

theorem grid_unclamped_counterexample:
  "1 \<le> 100 - 2 * padding \<and> 100 - 2 * padding < token_spacing
   \<and> tokens_per_row 100 = 0
   \<and> create_frame mono_width 100 json_ab [1, 2, 3] 0 [] 0 = Inl ZeroDivisionError"
  by code_simp

text \<open>
  C9. The statistics line never raises. With no visible token it is the placeholder
  text; the quotient of bytes over tokens is computed only when the token count (and the
  byte count) is positive, and otherwise the placeholder is produced.
\<close>

theorem stats_line_guard:
  "stats_line 0 utf8_byte_count = Inr Unknown
   \<and> \<not> isl (stats_line visible_tokens utf8_byte_count)
   \<and> stats_line visible_tokens utf8_byte_count =
       (if 0 < visible_tokens \<and> 0 < utf8_byte_count
        then Inr (Compression utf8_byte_count visible_tokens
                    (of_int utf8_byte_count / of_int visible_tokens))
        else Inr Unknown)"
  by (simp add: stats_line_eq)

section \<open>The frame schedule\<close>

lemma canvas_tokens_per_row:
  "token_spacing \<le> width - 2 * padding \<Longrightarrow> tokens_per_row width \<noteq> 0"
proof -
  assume "token_spacing \<le> width - 2 * padding"
  then have "1 \<le> tokens_per_row width"
    by (simp add: tokens_per_row_def token_spacing_def pos_imp_zdiv_pos_iff)
  then show ?thesis by simp
qed

lemma create_frame_canvas_ok:
  assumes "token_spacing \<le> width - 2 * padding"
  shows "\<exists>f. create_frame fw width ij tokens v dj b = Inr f
           \<and> visible_count f = v
           \<and> (\<exists>st. stats_line v b = Inr st \<and> stats f = st)"
  using create_frame_ok [OF canvas_tokens_per_row [OF assms], of fw ij tokens v dj b]
  by blast

lemma utf8_len_ge_length: "int (length s) \<le> utf8_len s"
proof (induction s)
  case Nil
  show ?case by (simp add: utf8_len_def)
next
  case (Cons c s)
  then show ?case by (simp add: utf8_len_def)
qed

lemma utf8_len_pos: "s \<noteq> [] \<Longrightarrow> 0 < utf8_len s"
  using utf8_len_ge_length [of s] by (cases s) auto

lemma token_frames_ok:
  assumes "token_spacing \<le> width - 2 * padding"
  shows "\<exists>fs. token_frames fw width js tokens i ds = Inr fs
            \<and> map visible_count fs = map (\<lambda>j. int j + 1) [i..<i + length ds]"
proof (induction ds arbitrary: i)
  case Nil
  show ?case by simp
next
  case (Cons d ds)
  obtain decoded token where d: "d = (decoded, token)" by (cases d)
  from create_frame_canvas_ok [OF assms, of fw js tokens "int i + 1"
      "if decoded \<noteq> [] then decoded else ''{}''"
      "if decoded \<noteq> [] then utf8_len decoded else 0"]
  obtain f where f: "create_frame fw width js tokens (int i + 1)
        (if decoded \<noteq> [] then decoded else ''{}'')
        (if decoded \<noteq> [] then utf8_len decoded else 0) = Inr f"
    and vf: "visible_count f = int i + 1"
    by blast
  from Cons.IH [of "Suc i"] obtain fs where
    fs: "token_frames fw width js tokens (Suc i) ds = Inr fs"
    and vs: "map visible_count fs = map (\<lambda>j. int j + 1) [Suc i..<Suc i + length ds]"
    by blast
  have eq: "token_frames fw width js tokens i (d # ds) = Inr (f # fs)"
    using f fs by (simp add: d Let_def)
  have "[i..<i + length (d # ds)] = i # [Suc i..<Suc i + length ds]"
    by (simp add: upt_rec)
  with eq vf vs show ?case by simp
qed

lemma map_int_upt_Suc: "map int [0..<Suc n] = 0 # map (\<lambda>j. int j + 1) [0..<n]"
proof -
  have "[0..<Suc n] = 0 # [Suc 0..<Suc n]"
    by (rule upt_conv_Cons) simp
  also have "[Suc 0..<Suc n] = map Suc [0..<n]"
    by (simp only: map_Suc_upt)
  finally have "map int [0..<Suc n] = map int (0 # map Suc [0..<n])"
    by (rule arg_cong)
  then show ?thesis by (simp add: comp_def del: upt_Suc)
qed

lemma sorted_map_int_upt: "sorted (map int [0..<n])"
  by (induction n) (auto simp: sorted_append)

lemma generate_animation_ok:
  assumes "token_spacing \<le> width - 2 * padding"
  shows "\<exists>frames st.
           generate_animation fw js tokens ds width fd
             = Inr (frames, replicate (length ds + 1) fd @ [fd * 3])
           \<and> map visible_count frames
               = map int [0..<length ds + 1] @ [int (length tokens)]
           \<and> stats_line (int (length tokens))
                (if (if ds \<noteq> [] then fst (last ds) else ''{}'') \<noteq> []
                 then utf8_len (if ds \<noteq> [] then fst (last ds) else ''{}'') else 0) = Inr st
           \<and> stats (last frames) = st"
proof -
  let ?final_decoded = "if ds \<noteq> [] then fst (last ds) else ''{}''"
  let ?final_bytes = "if ?final_decoded \<noteq> [] then utf8_len ?final_decoded else 0"
  from create_frame_canvas_ok [OF assms, of fw js tokens 0 "[]" 0]
  obtain f0 where f0: "create_frame fw width js tokens 0 [] 0 = Inr f0"
    and v0: "visible_count f0 = 0"
    by blast
  from token_frames_ok [OF assms, of fw js tokens 0 ds]
  obtain fs where fs: "token_frames fw width js tokens 0 ds = Inr fs"
    and vs: "map visible_count fs = map (\<lambda>j. int j + 1) [0..<length ds]"
    by auto
  from create_frame_canvas_ok [OF assms, of fw js tokens "int (length tokens)" ?final_decoded ?final_bytes]
  obtain fl st where fl: "create_frame fw width js tokens (int (length tokens))
                         ?final_decoded ?final_bytes = Inr fl"
    and vl: "visible_count fl = int (length tokens)"
    and st: "stats_line (int (length tokens)) ?final_bytes = Inr st" "stats fl = st"
    by blast
  have len: "length fs = length ds"
  proof -
    have "length (map visible_count fs) = length (map (\<lambda>j. int j + 1) [0..<length ds])"
      by (simp only: vs)
    then show ?thesis by simp
  qed
  have ga: "generate_animation fw js tokens ds width fd
             = Inr (f0 # fs @ [fl], replicate (length ds + 1) fd @ [fd * 3])"
    unfolding generate_animation_def Let_def using f0 fs fl len by simp
  have vis: "map visible_count (f0 # fs @ [fl])
               = map int [0..<length ds + 1] @ [int (length tokens)]"
    using v0 vs vl map_int_upt_Suc [of "length ds"] by simp
  have "last (f0 # fs @ [fl]) = fl" by simp
  with ga vis st show ?thesis by metis
qed

lemma decoded_states_loop_ok:
  assumes "\<forall>i\<in>set is. dp (take (i + 1) tokens) \<noteq> None"
  shows "\<exists>ds. decoded_states_loop dp tokens is = Inr ds
            \<and> map fst ds = map (\<lambda>i. the (dp (take (i + 1) tokens))) is"
  using assms
proof (induction "is")
  case Nil
  show ?case by simp
next
  case (Cons i "is")
  from Cons.prems obtain decoded where d: "dp (take (i + 1) tokens) = Some decoded"
    by auto
  from Cons obtain ds where
    ds: "decoded_states_loop dp tokens is = Inr ds"
        "map fst ds = map (\<lambda>i. the (dp (take (i + 1) tokens))) is"
    by auto
  show ?case using d ds by simp
qed

lemma build_schedule_ok:
  assumes "token_spacing \<le> width - 2 * padding"
    and "\<forall>i<length tokens. dp (take (i + 1) tokens) \<noteq> None"
  shows "\<exists>frames st.
           build_schedule fw dp js tokens width fd
             = Inr (frames, replicate (length tokens + 1) fd @ [fd * 3])
           \<and> map visible_count frames
               = map int [0..<length tokens + 1] @ [int (length tokens)]
           \<and> stats_line (int (length tokens))
                (if tokens = [] then 2
                 else if the (dp tokens) \<noteq> [] then utf8_len (the (dp tokens)) else 0) = Inr st
           \<and> stats (last frames) = st"
proof -
  from assms(2) have "\<forall>i\<in>set [0..<length tokens]. dp (take (i + 1) tokens) \<noteq> None"
    by simp
  from decoded_states_loop_ok [OF this] obtain ds where
    ds: "decoded_states_loop dp tokens [0..<length tokens] = Inr ds"
    and fsts: "map fst ds = map (\<lambda>i. the (dp (take (i + 1) tokens))) [0..<length tokens]"
    by blast
  have len: "length ds = length tokens"
  proof -
    have "length (map fst ds)
          = length (map (\<lambda>i. the (dp (take (i + 1) tokens))) [0..<length tokens])"
      by (simp only: fsts)
    then show ?thesis by simp
  qed
  have bytes: "(if (if ds \<noteq> [] then fst (last ds) else ''{}'') \<noteq> []
                 then utf8_len (if ds \<noteq> [] then fst (last ds) else ''{}'') else 0)
             = (if tokens = [] then 2
                else if the (dp tokens) \<noteq> [] then utf8_len (the (dp tokens)) else 0)"
  proof (cases "tokens = []")
    case True
    with len have "ds = []" by simp
    with True show ?thesis by (simp add: utf8_len_def)
  next
    case False
    with len have ne: "ds \<noteq> []" by auto
    then have "fst (last ds) = last (map fst ds)"
      by (simp add: last_map)
    also have "\<dots> = the (dp (take (length tokens - 1 + 1) tokens))"
      using False by (simp add: fsts last_map)
    also have "\<dots> = the (dp tokens)"
      using False by simp
    finally show ?thesis using False ne by simp
  qed
  from generate_animation_ok [OF assms(1), of fw js tokens ds fd]
  show ?thesis
    unfolding build_schedule_def ds bytes len by simp
qed

text \<open>
  C8. For every token sequence (on a canvas whose available width is at least the box
  spacing, and with a decoder that returns for every prefix), the animation is
  built and the visible token counts of its frames are \<open>0, 1, \<dots>, n, n\<close> for \<open>n\<close>
  tokens: they start at 0, grow by one per decode step, never decrease, and end at the
  number of tokens; every frame but the last is shown for the base duration and the last
  for three times the base duration.
\<close>

theorem schedule_monotone:
  assumes "token_spacing \<le> width - 2 * padding"
    and "\<forall>i<length tokens. decode_prefix (take (i + 1) tokens) \<noteq> None"
  shows "\<exists>frames durations.
           build_schedule font_width decode_prefix json_str tokens width frame_duration
             = Inr (frames, durations)
           \<and> map visible_count frames
               = map int [0..<length tokens + 1] @ [int (length tokens)]
           \<and> sorted (map visible_count frames)
           \<and> visible_count (hd frames) = 0
           \<and> visible_count (last frames) = int (length tokens)
           \<and> length durations = length frames
           \<and> butlast durations = replicate (length frames - 1) frame_duration
           \<and> last durations = frame_duration * 3"
proof -
  from build_schedule_ok [OF assms, of font_width json_str frame_duration]
  obtain frames where
    bs: "build_schedule font_width decode_prefix json_str tokens width frame_duration
           = Inr (frames, replicate (length tokens + 1) frame_duration @ [frame_duration * 3])"
    and vis: "map visible_count frames
                = map int [0..<length tokens + 1] @ [int (length tokens)]"
    by blast
  have len: "length frames = length tokens + 2"
  proof -
    have "length (map visible_count frames)
          = length (map int [0..<length tokens + 1] @ [int (length tokens)])"
      by (simp only: vis)
    then show ?thesis by simp
  qed
  then have ne: "frames \<noteq> []" by auto
  have srt: "sorted (map visible_count frames)"
    unfolding vis using sorted_map_int_upt [of "length tokens + 1"]
    by (auto simp: sorted_append simp del: upt_Suc)
  have h: "visible_count (hd frames) = 0"
  proof -
    have "visible_count (hd frames) = hd (map visible_count frames)"
      using ne by (simp add: hd_map)
    also have "\<dots> = 0" unfolding vis by (simp add: upt_rec [of 0])
    finally show ?thesis .
  qed
  have l: "visible_count (last frames) = int (length tokens)"
  proof -
    have "visible_count (last frames) = last (map visible_count frames)"
      using ne by (simp add: last_map)
    also have "\<dots> = int (length tokens)" unfolding vis by simp
    finally show ?thesis .
  qed
  from bs vis srt h l len show ?thesis by simp
qed

theorem schedule_monotone_witness:
  "token_spacing \<le> 700 - 2 * padding
   \<and> (\<exists>frames durations.
         build_schedule mono_width stub_decode_prefix pod_json seven_tokens 700 800
           = Inr (frames, durations)
         \<and> map visible_count frames = [0, 1, 2, 3, 4, 5, 6, 7, 7]
         \<and> last durations = 2400)"
proof -
  have h1: "token_spacing \<le> 700 - 2 * padding"
    by (simp add: padding_def token_spacing_def)
  have h2: "\<forall>i<length seven_tokens. stub_decode_prefix (take (i + 1) seven_tokens) \<noteq> None"
    by (simp add: stub_decode_prefix_def)
  have e: "map int [0..<length seven_tokens + 1] @ [int (length seven_tokens)]
           = [0, 1, 2, 3, 4, 5, 6, 7, 7]"
    by code_simp
  from schedule_monotone [OF h1 h2, of mono_width pod_json 800]
  obtain frames durations where
    bs: "build_schedule mono_width stub_decode_prefix pod_json seven_tokens 700 800
           = Inr (frames, durations)"
    and vis: "map visible_count frames
                = map int [0..<length seven_tokens + 1] @ [int (length seven_tokens)]"
    and ld: "last durations = 800 * 3"
    by blast
  from vis have vis': "map visible_count frames = [0, 1, 2, 3, 4, 5, 6, 7, 7]"
    by (simp only: e)
  from ld have ld': "last durations = 2400" by simp
  have "\<exists>frames durations.
          build_schedule mono_width stub_decode_prefix pod_json seven_tokens 700 800
            = Inr (frames, durations)
          \<and> map visible_count frames = [0, 1, 2, 3, 4, 5, 6, 7, 7]
          \<and> last durations = 2400"
    using bs vis' ld' by (intro exI conjI)
  with h1 show ?thesis ..
qed

text \<open>
  C4, as the code has it. For seven tokens, on a canvas whose available width is at
  least the box spacing, with a decoder that returns the empty string for every prefix
  shorter than seven tokens and the whole (non-empty) input for all seven, the animation
  has \<open>1 + 7 + 1 = 9\<close> frames: the single leading frame without
  tokens, one frame per token, and the extra final frame. The last frame is shown for
  three times the base duration and its statistics line carries the quotient of the
  input's byte length over 7.
\<close>

theorem seven_token_schedule:
  assumes "length tokens = 7"
    and "\<forall>p. length p < 7 \<longrightarrow> decode_prefix p = Some []"
    and "decode_prefix tokens = Some input"
    and "input \<noteq> []"
    and "token_spacing \<le> width - 2 * padding"
  shows "\<exists>frames durations.
           build_schedule font_width decode_prefix input tokens width frame_duration
             = Inr (frames, durations)
           \<and> length frames = 1 + 7 + 1
           \<and> length durations = length frames
           \<and> last durations = frame_duration * 3
           \<and> stats (last frames)
               = Compression (utf8_len input) 7 (of_int (utf8_len input) / 7)"
proof -
  have dec: "\<forall>i<length tokens. decode_prefix (take (i + 1) tokens) \<noteq> None"
  proof (intro allI impI)
    fix i assume i: "i < length tokens"
    show "decode_prefix (take (i + 1) tokens) \<noteq> None"
    proof (cases "i + 1 < 7")
      case True
      with assms(1) have "length (take (i + 1) tokens) < 7" by simp
      with assms(2) show ?thesis by simp
    next
      case False
      with i assms(1) have "take (i + 1) tokens = tokens" by simp
      with assms(3) show ?thesis by simp
    qed
  qed
  have ne: "tokens \<noteq> []" using assms(1) by auto
  from build_schedule_ok [OF assms(5) dec, of font_width input frame_duration]
  obtain frames st where
    bs: "build_schedule font_width decode_prefix input tokens width frame_duration
           = Inr (frames, replicate (length tokens + 1) frame_duration @ [frame_duration * 3])"
    and vis: "map visible_count frames
                = map int [0..<length tokens + 1] @ [int (length tokens)]"
    and st: "stats_line (int (length tokens))
                (if tokens = [] then 2
                 else if the (decode_prefix tokens) \<noteq> []
                      then utf8_len (the (decode_prefix tokens)) else 0) = Inr st"
            "stats (last frames) = st"
    by blast
  have len: "length frames = 9"
  proof -
    have "length (map visible_count frames)
          = length (map int [0..<length tokens + 1] @ [int (length tokens)])"
      by (simp only: vis)
    then show ?thesis using assms(1) by simp
  qed
  have "st = Compression (utf8_len input) 7 (of_int (utf8_len input) / 7)"
    using st(1) ne assms(1,3,4) utf8_len_pos [OF assms(4)]
    by (simp add: stats_line_eq)
  with bs len st(2) assms(1) show ?thesis by simp
qed

theorem seven_token_schedule_witness:
  "length seven_tokens = 7
   \<and> stub_decode_prefix seven_tokens = Some pod_json
   \<and> pod_json \<noteq> []
   \<and> token_spacing \<le> 700 - 2 * padding
   \<and> (\<exists>frames durations.
         build_schedule mono_width stub_decode_prefix pod_json seven_tokens 700 800
           = Inr (frames, durations)
         \<and> length frames = 9
         \<and> last durations = 2400
         \<and> stats (last frames) = Compression 32 7 (32 / 7))"
proof -
  have h1: "length seven_tokens = 7"
    by (simp add: seven_tokens_def)
  have h2: "\<forall>p. length p < 7 \<longrightarrow> stub_decode_prefix p = Some []"
    by (simp add: stub_decode_prefix_def)
  have h3: "stub_decode_prefix seven_tokens = Some pod_json"
    by (simp add: stub_decode_prefix_def seven_tokens_def)
  have h4: "pod_json \<noteq> []"
    by (simp add: pod_json_def)
  have h5: "token_spacing \<le> 700 - 2 * padding"
    by (simp add: padding_def token_spacing_def)
  have e: "utf8_len pod_json = 32"
    by code_simp
  from seven_token_schedule [OF h1 h2 h3 h4 h5, of mono_width 800]
  obtain frames durations where
    "build_schedule mono_width stub_decode_prefix pod_json seven_tokens 700 800
       = Inr (frames, durations)"
    "length frames = 1 + 7 + 1"
    "last durations = 800 * 3"
    "stats (last frames) = Compression (utf8_len pod_json) 7 (of_int (utf8_len pod_json) / 7)"
    by blast
  with h1 h3 h4 h5 e show ?thesis by simp
qed

text \<open>
  The claim as written, with its count of one leading frame plus seven, fails on the
  stub run at the default width 700: the animation is built and has nine frames.
\<close>

theorem seven_tokens_counterexample:
  "token_spacing \<le> 700 - 2 * padding
   \<and> \<not> isl (build_schedule mono_width stub_decode_prefix pod_json seven_tokens 700 800)
   \<and> length (fst (projr (build_schedule mono_width stub_decode_prefix pod_json seven_tokens 700 800)))
       = 9
   \<and> length (fst (projr (build_schedule mono_width stub_decode_prefix pod_json seven_tokens 700 800)))
       \<noteq> 1 + 7"
  by code_simp

end
